theory Spec2Isabelle
  imports Complex_Main
begin

section \<open>Data model\<close>

text \<open>
  A shallow embedding of the metric engine of \<^verbatim>\<open>packages/browser-utils/src/metrics\<close>.
  JavaScript numbers are modelled as real numbers: rounding of IEEE doubles, NaN and
  infinities are outside the model. An optional value (\<^verbatim>\<open>x?: T\<close>, \<^verbatim>\<open>undefined\<close>) is an
  \<open>option\<close>. Mutable module and closure variables become fields of explicit state
  records that every operation takes and returns.
\<close>

datatype MetricName = CLS | FCP | FID | INP | LCP | TTFB

datatype MetricRating = good | needs_improvement | poor

type_synonym MetricRatingThresholds = "real \<times> real"

text \<open>The object returned by \<^verbatim>\<open>initMetric\<close>; \<open>'e\<close> is the type of the raw entries.\<close>

record 'e Metric =
  name :: MetricName
  metric_value :: real
  rating :: MetricRating
  delta :: real
  entries :: "'e list"
  metric_id :: string
  navigationType :: string

record NavigationEntry =
  nav_type :: string
  activationStart :: real
  responseStart :: real

text \<open>
  What \<^verbatim>\<open>initMetric\<close> reads from the host: the result of \<^verbatim>\<open>getNavigationEntry()\<close>,
  \<^verbatim>\<open>getBFCacheRestoreTime()\<close>, \<^verbatim>\<open>document.prerendering\<close>, \<^verbatim>\<open>document.wasDiscarded\<close> and the
  string that \<^verbatim>\<open>generateUniqueID()\<close> returns next.
\<close>

record Env =
  navigationEntry :: "NavigationEntry option"
  bfcacheRestoreTime :: real
  prerendering :: bool
  wasDiscarded :: bool
  uniqueID :: string

section \<open>lib/getActivationStart, lib/initMetric\<close>

definition getActivationStart :: "Env \<Rightarrow> real" where
  "getActivationStart env =
     (case navigationEntry env of None \<Rightarrow> 0 | Some navEntry \<Rightarrow> activationStart navEntry)"

definition initMetric :: "MetricName \<Rightarrow> real option \<Rightarrow> Env \<Rightarrow> 'e Metric" where
  "initMetric nm v env =
     \<lparr> name = nm,
       metric_value = (case v of None \<Rightarrow> - 1 | Some x \<Rightarrow> x),
       rating = good,
       delta = 0,
       entries = [],
       metric_id = uniqueID env,
       navigationType =
         (if bfcacheRestoreTime env > 0 then ''back-forward-cache''
          else case navigationEntry env of
            None \<Rightarrow> ''navigate''
          | Some navEntry \<Rightarrow>
              if prerendering env \<or> getActivationStart env > 0 then ''prerender''
              else if wasDiscarded env then ''restore''
              else if nav_type navEntry = [] then ''navigate''
              else map (\<lambda>c. if c = CHR ''_'' then CHR ''-'' else c) (nav_type navEntry)) \<rparr>"

section \<open>lib/bindReporter\<close>

definition getRating :: "real \<Rightarrow> MetricRatingThresholds \<Rightarrow> MetricRating" where
  "getRating v thresholds =
     (if v > snd thresholds then poor
      else if v > fst thresholds then needs_improvement
      else good)"

text \<open>
  The closure that \<^verbatim>\<open>bindReporter\<close> returns: its captured parameters and its two
  variables \<^verbatim>\<open>prevValue\<close> and \<^verbatim>\<open>delta\<close>, both \<^verbatim>\<open>undefined\<close> at first. The captured
  metric object is shared with the caller, so the model passes its current contents to
  every call; the captured callback is modelled by the list of records it was called with.
\<close>

record Reporter =
  thresholds :: MetricRatingThresholds
  reportAllChanges :: "bool option"
  prevValue :: "real option"
  reporter_delta :: "real option"

definition truthy :: "bool option \<Rightarrow> bool" where
  "truthy b = (b = Some True)"

definition bindReporter :: "MetricRatingThresholds \<Rightarrow> bool option \<Rightarrow> Reporter" where
  "bindReporter ths rac =
     \<lparr> thresholds = ths, reportAllChanges = rac, prevValue = None, reporter_delta = None \<rparr>"

text \<open>
  One call \<^verbatim>\<open>report(forceReport)\<close> of the returned function on the reporter \<open>r\<close>, the
  current metric \<open>m\<close> and the calls \<open>calls\<close> the callback has received so far.
\<close>

definition report :: "bool option \<Rightarrow> Reporter \<times> 'e Metric \<times> 'e Metric list
    \<Rightarrow> Reporter \<times> 'e Metric \<times> 'e Metric list" where
  "report forceReport st =
     (case st of (r, m, calls) \<Rightarrow>
        if metric_value m > 0 then
          if truthy forceReport \<or> truthy (reportAllChanges r) then
            (let d = metric_value m - (case prevValue r of None \<Rightarrow> 0 | Some p \<Rightarrow> p)
             in if d \<noteq> 0 \<or> prevValue r = None then
                  (let m' = m\<lparr> delta := d, rating := getRating (metric_value m) (thresholds r) \<rparr>
                   in (r\<lparr> prevValue := Some (metric_value m), reporter_delta := Some d \<rparr>,
                       m', calls @ [m']))
                else (r\<lparr> reporter_delta := Some d \<rparr>, m, calls))
          else (r, m, calls)
        else (r, m, calls))"

text \<open>
  A client of one reporter: it assigns \<^verbatim>\<open>metric.value\<close> and calls the returned function,
  in any order.
\<close>

datatype ReporterOp = SetValue real | Report "bool option"

fun reporter_step :: "ReporterOp \<Rightarrow> Reporter \<times> 'e Metric \<times> 'e Metric list
    \<Rightarrow> Reporter \<times> 'e Metric \<times> 'e Metric list" where
  "reporter_step (SetValue v) (r, m, calls) = (r, m\<lparr> metric_value := v \<rparr>, calls)"
| "reporter_step (Report forceReport) st = report forceReport st"

definition is_forced :: "ReporterOp \<Rightarrow> bool" where
  "is_forced op = (case op of SetValue v \<Rightarrow> False | Report forceReport \<Rightarrow> truthy forceReport)"

section \<open>onTTFB\<close>

definition TTFBThresholds :: MetricRatingThresholds where
  "TTFBThresholds = (800, 1800)"

text \<open>
  The callback \<^verbatim>\<open>onTTFB\<close> hands to \<^verbatim>\<open>whenReady\<close>, run on the metric and reporter that
  \<^verbatim>\<open>onTTFB\<close> created; the result also tells whether the cache-restoration listener was
  registered.
\<close>

definition onTTFB_ready :: "Env \<Rightarrow> Reporter \<times> NavigationEntry Metric \<times> NavigationEntry Metric list
    \<Rightarrow> (Reporter \<times> NavigationEntry Metric \<times> NavigationEntry Metric list) \<times> bool" where
  "onTTFB_ready env st =
     (case st of (r, m, calls) \<Rightarrow>
        case navigationEntry env of
          None \<Rightarrow> (st, False)
        | Some navEntry \<Rightarrow>
            (report (Some True)
               (r, m\<lparr> metric_value := max (responseStart navEntry - getActivationStart env) 0,
                      entries := [navEntry] \<rparr>, calls),
             True))"

definition onTTFB :: "bool option \<Rightarrow> Env
    \<Rightarrow> Reporter \<times> NavigationEntry Metric \<times> NavigationEntry Metric list" where
  "onTTFB rac env = (bindReporter TTFBThresholds rac, initMetric TTFB None env, [])"

text \<open>
  The listener \<^verbatim>\<open>onTTFB\<close> registers with \<^verbatim>\<open>onBFCacheRestore\<close>: a new metric and a new
  reporter replace the old ones, the callback and its history \<open>calls\<close> stay.
\<close>

definition onTTFB_bfcacheRestore :: "bool option \<Rightarrow> Env \<Rightarrow> NavigationEntry Metric list
    \<Rightarrow> Reporter \<times> NavigationEntry Metric \<times> NavigationEntry Metric list" where
  "onTTFB_bfcacheRestore rac env calls =
     report (Some True) (bindReporter TTFBThresholds rac, initMetric TTFB (Some 0) env, calls)"

section \<open>onCLS\<close>

definition CLSThresholds :: MetricRatingThresholds where
  "CLSThresholds = (0.1, 0.25)"

record LayoutShift =
  shift_value :: real
  startTime :: real
  hadRecentInput :: bool

text \<open>
  The variables of the closure that \<^verbatim>\<open>onCLS\<close> runs once after first contentful paint.
  \<^verbatim>\<open>metric.entries = sessionEntries\<close> makes both names refer to one array, so a later
  \<^verbatim>\<open>sessionEntries.push\<close> is seen through the metric too: \<open>entriesShared\<close> records that
  the two are the same array.
\<close>

record CLSState =
  cls_metric :: "LayoutShift Metric"
  sessionValue :: real
  sessionEntries :: "LayoutShift list"
  entriesShared :: bool
  cls_reporter :: Reporter
  cls_reported :: "LayoutShift Metric list"

definition entry_startTime_or_0 :: "LayoutShift option \<Rightarrow> real" where
  "entry_startTime_or_0 e = (case e of None \<Rightarrow> 0 | Some x \<Rightarrow> startTime x)"

definition firstSessionEntry :: "CLSState \<Rightarrow> LayoutShift option" where
  "firstSessionEntry s = (case sessionEntries s of [] \<Rightarrow> None | x # xs \<Rightarrow> Some x)"

definition lastSessionEntry :: "CLSState \<Rightarrow> LayoutShift option" where
  "lastSessionEntry s = (if sessionEntries s = [] then None else Some (last (sessionEntries s)))"

text \<open>The body of the \<^verbatim>\<open>forEach\<close> in \<^verbatim>\<open>handleEntries\<close>.\<close>

definition handleEntry :: "LayoutShift \<Rightarrow> CLSState \<Rightarrow> CLSState" where
  "handleEntry entry s =
     (if \<not> hadRecentInput entry then
        if sessionValue s > 0
           \<and> startTime entry - entry_startTime_or_0 (lastSessionEntry s) < 1000
           \<and> startTime entry - entry_startTime_or_0 (firstSessionEntry s) < 5000
        then s\<lparr> sessionValue := sessionValue s + shift_value entry,
                sessionEntries := sessionEntries s @ [entry],
                cls_metric :=
                  (if entriesShared s
                   then (cls_metric s)\<lparr> entries := sessionEntries s @ [entry] \<rparr>
                   else cls_metric s) \<rparr>
        else s\<lparr> sessionValue := shift_value entry,
                sessionEntries := [entry],
                entriesShared := False \<rparr>
      else s)"

definition cls_report :: "bool option \<Rightarrow> CLSState \<Rightarrow> CLSState" where
  "cls_report forceReport s =
     (case report forceReport (cls_reporter s, cls_metric s, cls_reported s) of
        (r, m, calls) \<Rightarrow> s\<lparr> cls_reporter := r, cls_metric := m, cls_reported := calls \<rparr>)"

definition handleEntries :: "LayoutShift list \<Rightarrow> CLSState \<Rightarrow> CLSState" where
  "handleEntries es s =
     (let s1 = fold handleEntry es s
      in if sessionValue s1 > metric_value (cls_metric s1) then
           cls_report None
             (s1\<lparr> cls_metric := (cls_metric s1)\<lparr> metric_value := sessionValue s1,
                                                entries := sessionEntries s1 \<rparr>,
                   entriesShared := True \<rparr>)
         else s1)"

text \<open>
  The state when the closure has run with a supported observer, and its four
  scheduled continuations: the zero-delay timer, the hidden handler (with the records
  the observer still held), and the cache-restoration listener with its two-frame
  continuation.
\<close>

definition onCLS :: "bool option \<Rightarrow> Env \<Rightarrow> CLSState" where
  "onCLS rac env =
     \<lparr> cls_metric = initMetric CLS (Some 0) env,
       sessionValue = 0,
       sessionEntries = [],
       entriesShared = False,
       cls_reporter = bindReporter CLSThresholds rac,
       cls_reported = [] \<rparr>"

definition onCLS_timeout :: "CLSState \<Rightarrow> CLSState" where
  "onCLS_timeout s = cls_report None s"

definition onCLS_hidden :: "LayoutShift list \<Rightarrow> CLSState \<Rightarrow> CLSState" where
  "onCLS_hidden records s = cls_report (Some True) (handleEntries records s)"

definition onCLS_bfcacheRestore :: "Env \<Rightarrow> CLSState \<Rightarrow> CLSState" where
  "onCLS_bfcacheRestore env s =
     s\<lparr> sessionValue := 0,
        cls_metric := initMetric CLS (Some 0) env,
        entriesShared := False,
        cls_reporter := bindReporter CLSThresholds (reportAllChanges (cls_reporter s)) \<rparr>"

definition onCLS_doubleRAF :: "CLSState \<Rightarrow> CLSState" where
  "onCLS_doubleRAF s = cls_report None s"

section \<open>lib/interactions\<close>

record PerformanceEventTiming =
  interactionId :: "nat option"
  entryType :: string
  duration :: real
  event_startTime :: real

record Interaction =
  interaction_id :: "nat option"
  latency :: real
  interaction_entries :: "PerformanceEventTiming list"

text \<open>
  The module state. \<^verbatim>\<open>longestInteractionList\<close> and \<^verbatim>\<open>longestInteractionMap\<close> hold references to
  the same \<^verbatim>\<open>Interaction\<close> objects, and \<^verbatim>\<open>processInteractionEntry\<close> updates an object
  through the reference it got from the map: so the objects live in a store \<open>objects\<close>
  indexed by reference, the list is a list of references and the map sends a key to a
  reference. \<open>allocated\<close> counts the objects created so far; a reference at or above it
  is not in use and its slot of the store is never read.
\<close>

type_synonym ref = nat

record Interactions =
  objects :: "ref \<Rightarrow> Interaction"
  allocated :: nat
  longestInteractionList :: "ref list"
  longestInteractionMap :: "nat option \<rightharpoonup> ref"
  prevInteractionCount :: real
  entryPreProcessingCallbacks :: "(PerformanceEventTiming \<Rightarrow> PerformanceEventTiming) list"

definition MAX_INTERACTIONS_TO_CONSIDER :: nat where
  "MAX_INTERACTIONS_TO_CONSIDER = 10"

text \<open>The state of the freshly loaded module, with the hooks other modules registered.\<close>

definition interactions_init
    :: "(PerformanceEventTiming \<Rightarrow> PerformanceEventTiming) list \<Rightarrow> Interactions" where
  "interactions_init cbs =
     \<lparr> objects = (\<lambda>r. \<lparr> interaction_id = None, latency = 0, interaction_entries = [] \<rparr>),
       allocated = 0,
       longestInteractionList = [],
       longestInteractionMap = Map.empty,
       prevInteractionCount = 0,
       entryPreProcessingCallbacks = cbs \<rparr>"

text \<open>A read \<^verbatim>\<open>xs[i]\<close> of a JavaScript array: \<^verbatim>\<open>undefined\<close> outside \<open>0 .. length - 1\<close>.\<close>

definition array_get :: "'a list \<Rightarrow> int \<Rightarrow> 'a option" where
  "array_get xs i = (if 0 \<le> i \<and> i < int (length xs) then Some (xs ! nat i) else None)"

text \<open>
  \<^verbatim>\<open>getInteractionCount\<close> comes from the interaction-count polyfill, which is not part of
  the sources: its current result is the parameter \<open>interactionCount\<close> below.
\<close>

definition getInteractionCountForNavigation :: "real \<Rightarrow> Interactions \<Rightarrow> real" where
  "getInteractionCountForNavigation interactionCount s = interactionCount - prevInteractionCount s"

definition resetInteractions :: "real \<Rightarrow> Interactions \<Rightarrow> Interactions" where
  "resetInteractions interactionCount s =
     s\<lparr> prevInteractionCount := interactionCount,
        longestInteractionList := [],
        longestInteractionMap := Map.empty \<rparr>"

definition candidateInteractionIndex :: "real \<Rightarrow> Interactions \<Rightarrow> int" where
  "candidateInteractionIndex interactionCount s =
     min (int (length (longestInteractionList s)) - 1)
         \<lfloor>getInteractionCountForNavigation interactionCount s / 50\<rfloor>"

definition estimateP98LongestInteraction :: "real \<Rightarrow> Interactions \<Rightarrow> ref option" where
  "estimateP98LongestInteraction interactionCount s =
     array_get (longestInteractionList s) (candidateInteractionIndex interactionCount s)"

text \<open>The branch for an entry whose interaction is already in the map, at reference \<open>r\<close>.\<close>

definition update_existing :: "PerformanceEventTiming \<Rightarrow> ref \<Rightarrow> Interactions \<Rightarrow> Interactions" where
  "update_existing entry r s =
     (let existingInteraction = objects s r
      in if duration entry > latency existingInteraction then
           s\<lparr> objects := (objects s)
                (r := existingInteraction\<lparr> interaction_entries := [entry],
                                            latency := duration entry \<rparr>) \<rparr>
         else if duration entry = latency existingInteraction
                 \<and> (case interaction_entries existingInteraction of
                       [] \<Rightarrow> False
                     | e0 # es \<Rightarrow> event_startTime entry = event_startTime e0) then
           s\<lparr> objects := (objects s)
                (r := existingInteraction\<lparr> interaction_entries :=
                                              interaction_entries existingInteraction @ [entry] \<rparr>) \<rparr>
         else s)"

text \<open>The branch for a new interaction: a new object, entered in the map and pushed.\<close>

definition add_interaction :: "PerformanceEventTiming \<Rightarrow> Interactions \<Rightarrow> Interactions" where
  "add_interaction entry s =
     (let interaction = \<lparr> interaction_id = interactionId entry, latency = duration entry,
                          interaction_entries = [entry] \<rparr>;
          r = allocated s
      in s\<lparr> objects := (objects s)(r := interaction),
            allocated := Suc r,
            longestInteractionMap := (longestInteractionMap s)(interaction_id interaction \<mapsto> r),
            longestInteractionList := longestInteractionList s @ [r] \<rparr>)"

text \<open>
  \<^verbatim>\<open>sort((a, b) => b.latency - a.latency)\<close>: a stable sort by descending latency, which
  is the stable insertion sort by the negated latency.
\<close>

definition sort_by_latency :: "Interactions \<Rightarrow> Interactions" where
  "sort_by_latency s =
     s\<lparr> longestInteractionList :=
          sort_key (\<lambda>r. - latency (objects s r)) (longestInteractionList s) \<rparr>"

text \<open>\<^verbatim>\<open>splice(MAX_INTERACTIONS_TO_CONSIDER).forEach(i => longestInteractionMap.delete(i.id))\<close>\<close>

definition splice_longest :: "Interactions \<Rightarrow> Interactions" where
  "splice_longest s =
     (if length (longestInteractionList s) > MAX_INTERACTIONS_TO_CONSIDER then
        s\<lparr> longestInteractionList := take MAX_INTERACTIONS_TO_CONSIDER (longestInteractionList s),
           longestInteractionMap :=
             fold (\<lambda>r m. m(interaction_id (objects s r) := None))
               (drop MAX_INTERACTIONS_TO_CONSIDER (longestInteractionList s))
               (longestInteractionMap s) \<rparr>
      else s)"

definition is_candidate :: "PerformanceEventTiming \<Rightarrow> bool" where
  "is_candidate entry =
     ((case interactionId entry of None \<Rightarrow> False | Some i \<Rightarrow> i \<noteq> 0)
      \<or> entryType entry = ''first-input'')"

text \<open>
  \<^verbatim>\<open>entryPreProcessingCallbacks.forEach(cb => cb(entry))\<close>: each hook may update the
  entry object in place, so it is modelled as a function from the entry to the entry it
  leaves behind.
\<close>

definition preprocessed :: "PerformanceEventTiming \<Rightarrow> Interactions \<Rightarrow> PerformanceEventTiming" where
  "preprocessed entry s = fold (\<lambda>cb e. cb e) (entryPreProcessingCallbacks s) entry"

definition processInteractionEntry :: "PerformanceEventTiming \<Rightarrow> Interactions \<Rightarrow> Interactions" where
  "processInteractionEntry entry0 s =
     (let entry = preprocessed entry0 s
      in if \<not> is_candidate entry then s
         else
           let minLongestInteraction =
                 array_get (longestInteractionList s) (int (length (longestInteractionList s)) - 1);
               existingInteraction = longestInteractionMap s (interactionId entry)
           in if existingInteraction \<noteq> None
                 \<or> length (longestInteractionList s) < MAX_INTERACTIONS_TO_CONSIDER
                 \<or> duration entry
                     > (case minLongestInteraction of None \<Rightarrow> 0 | Some r \<Rightarrow> latency (objects s r))
              then
                splice_longest (sort_by_latency
                  (case existingInteraction of
                     Some r \<Rightarrow> update_existing entry r s
                   | None \<Rightarrow> add_interaction entry s))
              else s)"

text \<open>A caller of the module: it processes an entry, or resets at the given interaction count.\<close>

datatype InteractionOp = Process PerformanceEventTiming | Reset real

fun interactions_step :: "InteractionOp \<Rightarrow> Interactions \<Rightarrow> Interactions" where
  "interactions_step (Process entry) s = processInteractionEntry entry s"
| "interactions_step (Reset interactionCount) s = resetInteractions interactionCount s"

text \<open>The latencies of the retained interactions, in the order of the list.\<close>

definition latencies :: "Interactions \<Rightarrow> real list" where
  "latencies s = map (\<lambda>r. latency (objects s r)) (longestInteractionList s)"

text \<open>The entries the map has if it holds, for each reference of the list, its object's id.\<close>

definition list_table :: "Interactions \<Rightarrow> (nat option \<times> ref) list" where
  "list_table s = map (\<lambda>r. (interaction_id (objects s r), r)) (longestInteractionList s)"

text \<open>For the proofs: list and map agree, and every reference of the list is in use.\<close>

definition in_sync :: "Interactions \<Rightarrow> bool" where
  "in_sync s \<longleftrightarrow>
     distinct (longestInteractionList s)
     \<and> (\<forall>r \<in> set (longestInteractionList s).
          r < allocated s \<and> longestInteractionMap s (interaction_id (objects s r)) = Some r)
     \<and> (\<forall>k r. longestInteractionMap s k = Some r
          \<longrightarrow> r \<in> set (longestInteractionList s) \<and> interaction_id (objects s r) = k)"

text \<open>For the proofs: at most ten references, in descending order of latency.\<close>

definition bounded_sorted :: "Interactions \<Rightarrow> bool" where
  "bounded_sorted s \<longleftrightarrow> length (longestInteractionList s) \<le> MAX_INTERACTIONS_TO_CONSIDER
      \<and> sorted_wrt (\<ge>) (latencies s)"

text \<open>
  For the proofs: every sample of the list starts at or after its predecessor (the first
  one at or after time \<open>t\<close>) and less than 1000 ms after it.
\<close>

fun chain :: "real \<Rightarrow> LayoutShift list \<Rightarrow> bool" where
  "chain t [] = True"
| "chain t (x # xs) = (0 \<le> startTime x - t \<and> startTime x - t < 1000 \<and> chain (startTime x) xs)"

section \<open>Sample inputs\<close>

text \<open>A first page load with no navigation entry, and a layout shift without recent input.\<close>

definition plain_env :: Env where
  "plain_env =
     \<lparr> navigationEntry = None, bfcacheRestoreTime = - 1, prerendering = False,
       wasDiscarded = False, uniqueID = ''v4-1700000000000-1000000000001'' \<rparr>"

definition shift :: "real \<Rightarrow> real \<Rightarrow> LayoutShift" where
  "shift v t = \<lparr> shift_value = v, startTime = t, hadRecentInput = False \<rparr>"

text \<open>Six layout shifts of magnitude 0.1, 900 ms apart, from 0 to 4500 ms.\<close>

definition six_shifts :: "LayoutShift list" where
  "six_shifts = [shift 0.1 0, shift 0.1 900, shift 0.1 1800, shift 0.1 2700, shift 0.1 3600,
                 shift 0.1 4500]"

text \<open>
  An event entry of an interaction; thirteen entries, the last of which belongs to an
  interaction already seen; and three entries.
\<close>

definition event :: "nat \<Rightarrow> real \<Rightarrow> real \<Rightarrow> PerformanceEventTiming" where
  "event i d t = \<lparr> interactionId = Some i, entryType = ''event'', duration = d, event_startTime = t \<rparr>"

definition sample_ops :: "InteractionOp list" where
  "sample_ops = map (\<lambda>i. Process (event (Suc i) (real (40 + 8 * i)) 0)) [0..<12]
                @ [Process (event 5 200 0)]"

definition few_ops :: "InteractionOp list" where
  "few_ops = [Process (event 1 48 0), Process (event 2 96 10), Process (event 3 72 20)]"

section \<open>Rating classification\<close>

lemma getRating_cases:
  "getRating v (t0, t1) =
     (if v > t1 then poor else if v > t0 then needs_improvement else good)"
  by (simp add: getRating_def)

text \<open>
  C8. The rating depends on the value and the two thresholds only. For thresholds
  \<open>(t0, t1)\<close> with \<open>t0 < t1\<close> (good-maximum below improvement-maximum, as every threshold
  pair of the package is): a value \<open>\<le> t0\<close> is good, a value with \<open>t0 < v \<le> t1\<close> needs
  improvement, a value \<open>> t1\<close> is poor; exactly \<open>t0\<close> is good and exactly \<open>t1\<close> needs
  improvement.
\<close>

theorem getRating_classification:
  assumes "t0 < t1"
  shows "(v \<le> t0 \<longrightarrow> getRating v (t0, t1) = good)
       \<and> (t0 < v \<and> v \<le> t1 \<longrightarrow> getRating v (t0, t1) = needs_improvement)
       \<and> (v > t1 \<longrightarrow> getRating v (t0, t1) = poor)
       \<and> getRating t0 (t0, t1) = good
       \<and> getRating t1 (t0, t1) = needs_improvement"
  using assms by (auto simp: getRating_cases)

theorem getRating_classification_witness:
  "getRating 0.1 CLSThresholds = good
   \<and> getRating 0.25 CLSThresholds = needs_improvement
   \<and> getRating 0.2 CLSThresholds = needs_improvement
   \<and> getRating 0.3 CLSThresholds = poor
   \<and> getRating 0.05 CLSThresholds = good"
proof -
  have lt: "(0.1::real) < 0.25" by simp
  show ?thesis
    using getRating_classification [OF lt, of "0.2"]
      getRating_classification [OF lt, of "0.3"]
      getRating_classification [OF lt, of "0.05"]
    by (simp add: CLSThresholds_def)
qed

section \<open>The reporter\<close>

lemma report_unforced:
  "\<not> truthy forceReport \<Longrightarrow> \<not> truthy (reportAllChanges r)
   \<Longrightarrow> report forceReport (r, m, calls) = (r, m, calls)"
  by (simp add: report_def)

lemma report_nonpositive:
  "metric_value m \<le> 0 \<Longrightarrow> report forceReport (r, m, calls) = (r, m, calls)"
  by (simp add: report_def)

lemma fold_reporter_step_unforced:
  "\<not> truthy (reportAllChanges r) \<Longrightarrow> \<forall>op \<in> set ops. \<not> is_forced op \<Longrightarrow>
   \<exists>m'. fold reporter_step ops (r, m, calls) = (r, m', calls)"
proof (induction ops arbitrary: m)
  case Nil
  then show ?case by simp
next
  case (Cons op ops)
  show ?case
  proof (cases op)
    case (SetValue v)
    with Cons show ?thesis by simp
  next
    case (Report f)
    with Cons.prems have "\<not> truthy f" by (simp add: is_forced_def)
    with Cons Report show ?thesis by (simp add: report_unforced)
  qed
qed

text \<open>
  C9. A reporter bound with \<^verbatim>\<open>reportAllChanges\<close> false or absent never calls the callback
  in any sequence of assignments to \<^verbatim>\<open>metric.value\<close> and calls of the returned function
  whose argument is false or absent: the list of callback calls stays as it was.
\<close>

theorem bindReporter_unforced_never_calls_back:
  assumes "\<not> truthy rac" and "\<forall>op \<in> set ops. \<not> is_forced op"
  shows "snd (snd (fold reporter_step ops (bindReporter ths rac, m, calls))) = calls"
proof -
  have "\<not> truthy (reportAllChanges (bindReporter ths rac))"
    using assms(1) by (simp add: bindReporter_def)
  from fold_reporter_step_unforced [OF this assms(2)]
  obtain m' where
    "fold reporter_step ops (bindReporter ths rac, m, calls) = (bindReporter ths rac, m', calls)"
    by blast
  then show ?thesis by simp
qed

text \<open>
  Six unforced steps on a TTFB reporter leave the callback uncalled; the same reporter
  does call back on a forced report of a positive value.
\<close>

theorem bindReporter_unforced_never_calls_back_witness:
  "snd (snd (fold reporter_step
       [SetValue 1200, Report None, SetValue 2500, Report (Some False), SetValue 300, Report None]
       (bindReporter TTFBThresholds None, initMetric TTFB None plain_env, [])))
     = ([] :: NavigationEntry Metric list)
   \<and> snd (snd (fold reporter_step [SetValue 1200, Report (Some True)]
       (bindReporter TTFBThresholds None, initMetric TTFB None plain_env, [])))
     = [(initMetric TTFB None plain_env :: NavigationEntry Metric)
          \<lparr> metric_value := 1200, rating := needs_improvement, delta := 1200 \<rparr>]"
proof -
  have a: "\<not> truthy None" by (simp add: truthy_def)
  have b: "\<forall>op \<in> set [SetValue 1200, Report None, SetValue 2500, Report (Some False),
      SetValue 300, Report None]. \<not> is_forced op"
    by (simp add: is_forced_def truthy_def)
  show ?thesis
    using bindReporter_unforced_never_calls_back [OF a b]
    by (simp add: report_def truthy_def bindReporter_def TTFBThresholds_def getRating_def
        initMetric_def plain_env_def Let_def)
qed

text \<open>
  C1. The returned function does nothing on a value \<open>\<le> 0\<close> whatever the metric's name
  (\<open>report_nonpositive\<close>): the guard is \<^verbatim>\<open>metric.value > 0\<close> and names no metric. So the
  CLS record of value 0 is never passed to the callback: not by the zero-delay timer that
  \<^verbatim>\<open>onCLS\<close> schedules, and not by any other call of the reporter on the fresh state,
  forced or with \<^verbatim>\<open>reportAllChanges\<close> set.
\<close>

theorem onCLS_baseline_never_reported:
  "cls_reported (onCLS_timeout (onCLS rac env)) = []
   \<and> cls_reported (cls_report forceReport (onCLS rac env)) = []"
  by (simp add: onCLS_timeout_def cls_report_def onCLS_def report_def initMetric_def)

text \<open>
  C2. On cache restoration \<^verbatim>\<open>onTTFB\<close> makes a new record of value 0 and a new reporter
  and calls it with \<^verbatim>\<open>true\<close>; the call returns at the guard \<^verbatim>\<open>metric.value > 0\<close>, so the
  callback receives nothing: its calls are those it had before.
\<close>

theorem onTTFB_bfcacheRestore_never_reported:
  "onTTFB_bfcacheRestore rac env calls
     = (bindReporter TTFBThresholds rac, initMetric TTFB (Some 0) env, calls)"
  by (simp add: onTTFB_bfcacheRestore_def report_def initMetric_def)

section \<open>Layout-shift sessions\<close>

lemma cls_report_session [simp]:
  "sessionValue (cls_report f s) = sessionValue s"
  "sessionEntries (cls_report f s) = sessionEntries s"
  by (simp_all add: cls_report_def split: prod.splits)

lemma report_metric_value:
  "report f (r, m, calls) = (r', m', calls') \<Longrightarrow> metric_value m' = metric_value m"
  by (auto simp: report_def Let_def split: if_splits)

lemma cls_report_metric_value [simp]:
  "metric_value (cls_metric (cls_report f s)) = metric_value (cls_metric s)"
  by (auto simp: cls_report_def split: prod.splits dest: report_metric_value)

lemma handleEntry_metric_value [simp]:
  "metric_value (cls_metric (handleEntry e s)) = metric_value (cls_metric s)"
  by (simp add: handleEntry_def)

lemma fold_handleEntry_metric_value [simp]:
  "metric_value (cls_metric (fold handleEntry es s)) = metric_value (cls_metric s)"
  by (induction es arbitrary: s) simp_all

lemma handleEntries_session [simp]:
  "sessionValue (handleEntries es s) = sessionValue (fold handleEntry es s)"
  "sessionEntries (handleEntries es s) = sessionEntries (fold handleEntry es s)"
  by (simp_all add: handleEntries_def Let_def)

lemma handleEntries_metric_value:
  "metric_value (cls_metric (handleEntries es s))
     = max (metric_value (cls_metric s)) (sessionValue (fold handleEntry es s))"
  by (simp add: handleEntries_def Let_def)

lemma handleEntries_monotone:
  "metric_value (cls_metric s) \<le> metric_value (cls_metric (handleEntries es s))"
  by (simp add: handleEntries_metric_value)

lemma handleEntry_merge:
  assumes "\<not> hadRecentInput e" "sessionEntries s \<noteq> []" "sessionValue s > 0"
    "startTime e - startTime (last (sessionEntries s)) < 1000"
    "startTime e - startTime (hd (sessionEntries s)) < 5000"
  shows "sessionValue (handleEntry e s) = sessionValue s + shift_value e"
    and "sessionEntries (handleEntry e s) = sessionEntries s @ [e]"
  using assms
  by (cases "sessionEntries s"; simp add: handleEntry_def lastSessionEntry_def firstSessionEntry_def
      entry_startTime_or_0_def)+

lemma handleEntry_new_session_gap:
  assumes "\<not> hadRecentInput e" "sessionEntries s \<noteq> []"
    "startTime e - startTime (last (sessionEntries s)) \<ge> 1000"
  shows "sessionValue (handleEntry e s) = shift_value e"
    and "sessionEntries (handleEntry e s) = [e]"
  using assms
  by (simp_all add: handleEntry_def lastSessionEntry_def entry_startTime_or_0_def)

lemma handleEntry_new_session_zero:
  assumes "\<not> hadRecentInput e" "sessionValue s \<le> 0"
  shows "sessionValue (handleEntry e s) = shift_value e"
    and "sessionEntries (handleEntry e s) = [e]"
  using assms by (simp_all add: handleEntry_def)


lemma chain_of_gaps:
  "\<forall>i. Suc i < length (x # xs) \<longrightarrow>
      0 \<le> startTime ((x # xs) ! Suc i) - startTime ((x # xs) ! i)
      \<and> startTime ((x # xs) ! Suc i) - startTime ((x # xs) ! i) < 1000
   \<Longrightarrow> chain (startTime x) xs"
proof (induction xs arbitrary: x)
  case Nil
  then show ?case by simp
next
  case (Cons y ys)
  from Cons.prems [rule_format, of 0] have g0: "0 \<le> startTime y - startTime x" "startTime y - startTime x < 1000"
    by simp_all
  have "\<forall>i. Suc i < length (y # ys) \<longrightarrow>
      0 \<le> startTime ((y # ys) ! Suc i) - startTime ((y # ys) ! i)
      \<and> startTime ((y # ys) ! Suc i) - startTime ((y # ys) ! i) < 1000"
  proof (intro allI impI)
    fix i assume "Suc i < length (y # ys)"
    then have "Suc (Suc i) < length (x # y # ys)" by simp
    from Cons.prems [rule_format, OF this] show "0 \<le> startTime ((y # ys) ! Suc i) - startTime ((y # ys) ! i)
      \<and> startTime ((y # ys) ! Suc i) - startTime ((y # ys) ! i) < 1000" by simp
  qed
  from Cons.IH [OF this] g0 show ?case by simp
qed

lemma fold_handleEntry_sum:
  assumes "sessionEntries s \<noteq> []" "0 \<le> sessionValue s"
    "t0 \<le> startTime (hd (sessionEntries s))" "t0 \<le> startTime (last (sessionEntries s))"
    "chain (startTime (last (sessionEntries s))) es"
    "\<forall>e \<in> set es. \<not> hadRecentInput e \<and> 0 \<le> shift_value e \<and> startTime e - t0 < 5000"
  shows "sessionValue (fold handleEntry es s) = sessionValue s + sum_list (map shift_value es)"
  using assms
proof (induction es arbitrary: s)
  case Nil
  then show ?case by simp
next
  case (Cons e es)
  from Cons.prems have e: "\<not> hadRecentInput e" "0 \<le> shift_value e" "startTime e - t0 < 5000"
    and gap: "0 \<le> startTime e - startTime (last (sessionEntries s))"
      "startTime e - startTime (last (sessionEntries s)) < 1000"
    and ch: "chain (startTime e) es"
    by simp_all
  let ?s' = "handleEntry e s"
  have step: "sessionValue ?s' = sessionValue s + shift_value e
      \<and> sessionEntries ?s' \<noteq> [] \<and> last (sessionEntries ?s') = e
      \<and> t0 \<le> startTime (hd (sessionEntries ?s'))"
  proof (cases "sessionValue s > 0")
    case True
    have "startTime e - startTime (hd (sessionEntries s)) < 5000"
      using e(3) Cons.prems(3) by linarith
    from handleEntry_merge [OF e(1) Cons.prems(1) True gap(2) this]
    show ?thesis using Cons.prems(1,3) by simp
  next
    case False
    with Cons.prems(2) have z: "sessionValue s = 0" by simp
    then have "sessionValue s \<le> 0" by simp
    from handleEntry_new_session_zero [OF e(1) this]
    show ?thesis using z gap(1) Cons.prems(4) by simp
  qed
  have "sessionValue (fold handleEntry es ?s') = sessionValue ?s' + sum_list (map shift_value es)"
  proof (rule Cons.IH)
    show "sessionEntries ?s' \<noteq> []" using step by simp
    show "0 \<le> sessionValue ?s'" using step e(2) Cons.prems(2) by simp
    show "t0 \<le> startTime (hd (sessionEntries ?s'))" using step by simp
    show "t0 \<le> startTime (last (sessionEntries ?s'))" using step gap(1) Cons.prems(4) by simp
    show "chain (startTime (last (sessionEntries ?s'))) es" using step ch by simp
    show "\<forall>e \<in> set es. \<not> hadRecentInput e \<and> 0 \<le> shift_value e \<and> startTime e - t0 < 5000"
      using Cons.prems(6) by simp
  qed
  with step show ?case by simp
qed

lemma fold_handleEntry_fresh_sum:
  assumes "sessionValue s = 0"
    "\<forall>e \<in> set es. \<not> hadRecentInput e \<and> 0 \<le> shift_value e"
    "\<forall>i. Suc i < length es \<longrightarrow>
        0 \<le> startTime (es ! Suc i) - startTime (es ! i)
        \<and> startTime (es ! Suc i) - startTime (es ! i) < 1000"
    "\<forall>e \<in> set es. startTime e - startTime (hd es) < 5000"
  shows "sessionValue (fold handleEntry es s) = sum_list (map shift_value es)"
proof (cases es)
  case Nil
  with assms(1) show ?thesis by simp
next
  case (Cons x xs)
  let ?s' = "handleEntry x s"
  from assms(2) Cons have x: "\<not> hadRecentInput x" "0 \<le> shift_value x" by simp_all
  from assms(1) have "sessionValue s \<le> 0" by simp
  note new = handleEntry_new_session_zero [OF x(1) this]
  have "sessionValue (fold handleEntry xs ?s') = sessionValue ?s' + sum_list (map shift_value xs)"
  proof (rule fold_handleEntry_sum [where ?t0.0 = "startTime x"])
    show "sessionEntries ?s' \<noteq> []" using new by simp
    show "0 \<le> sessionValue ?s'" using new x by simp
    show "startTime x \<le> startTime (hd (sessionEntries ?s'))" using new by simp
    show "startTime x \<le> startTime (last (sessionEntries ?s'))" using new by simp
    show "chain (startTime (last (sessionEntries ?s'))) xs"
      using chain_of_gaps [of x xs] assms(3) Cons new by simp
    show "\<forall>e \<in> set xs. \<not> hadRecentInput e \<and> 0 \<le> shift_value e \<and> startTime e - startTime x < 5000"
      using assms(2,4) Cons by simp
  qed
  with new Cons show ?thesis by simp
qed

lemma fold_handleEntry_last:
  "es \<noteq> [] \<Longrightarrow> \<forall>e \<in> set es. \<not> hadRecentInput e \<Longrightarrow>
   sessionEntries (fold handleEntry es s) \<noteq> [] \<and> last (sessionEntries (fold handleEntry es s)) = last es"
proof (induction es arbitrary: s rule: rev_induct)
  case Nil
  then show ?case by simp
next
  case (snoc e es)
  then show ?case by (simp add: handleEntry_def)
qed

text \<open>
  C3. From the state of a fresh epoch (session value and record value both 0), one call
  of \<^verbatim>\<open>handleEntries\<close> on samples without recent input, of magnitude \<open>\<ge> 0\<close>, each at
  least 0 and less than 1000 ms after its predecessor and all less than 5000 ms after the
  first, leaves the record's value equal to the sum of the magnitudes. And a sample
  without recent input that starts more than 1000 ms after the previous sample (the last
  one of the current session, or its predecessor in the same batch of samples without
  recent input) starts a new session: the session value is that sample's magnitude and
  the session holds that sample only.
\<close>

theorem handleEntries_session_sum:
  "(sessionValue s = 0 \<and> metric_value (cls_metric s) = 0
      \<and> (\<forall>e \<in> set es. \<not> hadRecentInput e \<and> 0 \<le> shift_value e)
      \<and> (\<forall>i. Suc i < length es \<longrightarrow>
            0 \<le> startTime (es ! Suc i) - startTime (es ! i)
            \<and> startTime (es ! Suc i) - startTime (es ! i) < 1000)
      \<and> (\<forall>e \<in> set es. startTime e - startTime (hd es) < 5000)
    \<longrightarrow> metric_value (cls_metric (handleEntries es s)) = sum_list (map shift_value es))
   \<and> (sessionEntries s' \<noteq> [] \<and> \<not> hadRecentInput e
      \<and> startTime e - startTime (last (sessionEntries s')) > 1000
    \<longrightarrow> sessionValue (handleEntries [e] s') = shift_value e
        \<and> sessionEntries (handleEntries [e] s') = [e])
   \<and> (ps \<noteq> [] \<and> (\<forall>p \<in> set ps. \<not> hadRecentInput p) \<and> \<not> hadRecentInput e'
      \<and> startTime e' - startTime (last ps) > 1000
    \<longrightarrow> sessionValue (handleEntries (ps @ [e']) s'') = shift_value e'
        \<and> sessionEntries (handleEntries (ps @ [e']) s'') = [e'])"
proof (intro conjI impI)
  assume a: "sessionValue s = 0 \<and> metric_value (cls_metric s) = 0
      \<and> (\<forall>e \<in> set es. \<not> hadRecentInput e \<and> 0 \<le> shift_value e)
      \<and> (\<forall>i. Suc i < length es \<longrightarrow>
            0 \<le> startTime (es ! Suc i) - startTime (es ! i)
            \<and> startTime (es ! Suc i) - startTime (es ! i) < 1000)
      \<and> (\<forall>e \<in> set es. startTime e - startTime (hd es) < 5000)"
  then have sum: "sessionValue (fold handleEntry es s) = sum_list (map shift_value es)"
    by (intro fold_handleEntry_fresh_sum) simp_all
  from a have "0 \<le> sum_list (map shift_value es)"
    by (intro sum_list_nonneg) auto
  with sum a show "metric_value (cls_metric (handleEntries es s)) = sum_list (map shift_value es)"
    by (simp add: handleEntries_metric_value)
next
  assume b: "sessionEntries s' \<noteq> [] \<and> \<not> hadRecentInput e
      \<and> startTime e - startTime (last (sessionEntries s')) > 1000"
  then have g: "startTime e - startTime (last (sessionEntries s')) \<ge> 1000" by simp
  from b handleEntry_new_session_gap [OF _ _ g]
  show "sessionValue (handleEntries [e] s') = shift_value e"
    and "sessionEntries (handleEntries [e] s') = [e]" by simp_all
next
  assume c: "ps \<noteq> [] \<and> (\<forall>p \<in> set ps. \<not> hadRecentInput p) \<and> \<not> hadRecentInput e'
      \<and> startTime e' - startTime (last ps) > 1000"
  let ?t = "fold handleEntry ps s''"
  from c fold_handleEntry_last [of ps s'']
  have l: "sessionEntries ?t \<noteq> []" "last (sessionEntries ?t) = last ps" by simp_all
  with c have g: "startTime e' - startTime (last (sessionEntries ?t)) \<ge> 1000" by simp
  from c handleEntry_new_session_gap [OF _ l(1) g]
  show "sessionValue (handleEntries (ps @ [e']) s'') = shift_value e'"
    and "sessionEntries (handleEntries (ps @ [e']) s'') = [e']" by simp_all
qed

lemma onCLS_fresh:
  "sessionValue (onCLS rac env) = 0" "metric_value (cls_metric (onCLS rac env)) = 0"
  "sessionEntries (onCLS rac env) = []"
  by (simp_all add: onCLS_def initMetric_def)

text \<open>
  The three shifts 0.05, 0.03, 0.02 at 0, 500 and 900 ms give the value 0.1; a fourth
  one at 2500 ms starts a session of its own.
\<close>

theorem handleEntries_session_sum_witness:
  "metric_value (cls_metric (handleEntries [shift 0.05 0, shift 0.03 500, shift 0.02 900]
       (onCLS None plain_env))) = 0.1
   \<and> sessionValue (handleEntries ([shift 0.05 0, shift 0.03 500, shift 0.02 900] @ [shift 0.2 2500])
       (onCLS None plain_env)) = 0.2"
proof -
  let ?es = "[shift 0.05 0, shift 0.03 500, shift 0.02 900]"
  have gaps: "\<forall>i. Suc i < length ?es \<longrightarrow>
            0 \<le> startTime (?es ! Suc i) - startTime (?es ! i)
            \<and> startTime (?es ! Suc i) - startTime (?es ! i) < 1000"
    by (auto simp: shift_def less_Suc_eq)
  have rest: "(\<forall>e \<in> set ?es. \<not> hadRecentInput e \<and> 0 \<le> shift_value e)"
    "(\<forall>e \<in> set ?es. startTime e - startTime (hd ?es) < 5000)"
    "?es \<noteq> []" "\<forall>p \<in> set ?es. \<not> hadRecentInput p" "\<not> hadRecentInput (shift 0.2 2500)"
    "startTime (shift 0.2 2500) - startTime (last ?es) > 1000"
    by (simp_all add: shift_def)
  from handleEntries_session_sum [of "onCLS None plain_env" ?es _ _ ?es "shift 0.2 2500" "onCLS None plain_env"]
    gaps rest onCLS_fresh
  show ?thesis by (simp add: shift_def)
qed

lemma handleEntry_new_session_span:
  assumes "\<not> hadRecentInput e" "sessionEntries s \<noteq> []"
    "startTime e - startTime (hd (sessionEntries s)) \<ge> 5000"
  shows "sessionValue (handleEntry e s) = shift_value e"
    and "sessionEntries (handleEntry e s) = [e]"
  using assms
  by (cases "sessionEntries s";
      simp add: handleEntry_def firstSessionEntry_def entry_startTime_or_0_def)+

text \<open>
  C4 (as amended). For a current session (at least one sample) and a new sample without
  recent input, the code tests three strict bounds: the session's value is positive, the
  sample starts less than 1000 ms after the session's last sample, and it starts less
  than 5000 ms after the session's first sample. When all three hold the sample is
  merged (its magnitude added to the session value, the sample appended); when any one
  fails (the value is not positive, or the sample starts 1000 ms or more after the last
  sample, or 5000 ms or more after the first) it starts a new session of its own
  magnitude, holding that sample only. The 5000 ms bound is on the new sample's distance
  from the first sample, not on the span of the samples already in the session.
\<close>

theorem handleEntry_session_rule:
  assumes "\<not> hadRecentInput e" and "sessionEntries s \<noteq> []"
  shows "(0 < sessionValue s
          \<and> startTime e - startTime (last (sessionEntries s)) < 1000
          \<and> startTime e - startTime (hd (sessionEntries s)) < 5000
          \<longrightarrow> sessionValue (handleEntry e s) = sessionValue s + shift_value e
              \<and> sessionEntries (handleEntry e s) = sessionEntries s @ [e])
       \<and> (sessionValue s \<le> 0
          \<or> startTime e - startTime (last (sessionEntries s)) \<ge> 1000
          \<or> startTime e - startTime (hd (sessionEntries s)) \<ge> 5000
          \<longrightarrow> sessionValue (handleEntry e s) = shift_value e
              \<and> sessionEntries (handleEntry e s) = [e])"
proof (intro conjI impI)
  assume m: "0 < sessionValue s
          \<and> startTime e - startTime (last (sessionEntries s)) < 1000
          \<and> startTime e - startTime (hd (sessionEntries s)) < 5000"
  then have m1: "0 < sessionValue s"
    and m2: "startTime e - startTime (last (sessionEntries s)) < 1000"
    and m3: "startTime e - startTime (hd (sessionEntries s)) < 5000"
    by blast+
  from handleEntry_merge [OF assms(1,2) m1 m2 m3]
  show "sessionValue (handleEntry e s) = sessionValue s + shift_value e"
    and "sessionEntries (handleEntry e s) = sessionEntries s @ [e]" .
next
  assume n: "sessionValue s \<le> 0
          \<or> startTime e - startTime (last (sessionEntries s)) \<ge> 1000
          \<or> startTime e - startTime (hd (sessionEntries s)) \<ge> 5000"
  then have "sessionValue (handleEntry e s) = shift_value e
      \<and> sessionEntries (handleEntry e s) = [e]"
  proof (elim disjE)
    assume "sessionValue s \<le> 0"
    from handleEntry_new_session_zero [OF assms(1) this] show ?thesis by blast
  next
    assume "startTime e - startTime (last (sessionEntries s)) \<ge> 1000"
    from handleEntry_new_session_gap [OF assms(1,2) this] show ?thesis by blast
  next
    assume "startTime e - startTime (hd (sessionEntries s)) \<ge> 5000"
    from handleEntry_new_session_span [OF assms(1,2) this] show ?thesis by blast
  qed
  then show "sessionValue (handleEntry e s) = shift_value e"
    and "sessionEntries (handleEntry e s) = [e]" by blast+
qed

text \<open>
  C4 as stated fails: a session of value 0.1 with one sample at time 0, and a sample of
  magnitude 0.05 exactly 1000 ms later. The sample is not merged; it starts a new
  session of value 0.05.
\<close>

theorem handleEntry_gap_1000_counterexample:
  "sessionValue (handleEntries [shift 0.1 0] (onCLS None plain_env)) = 0.1
   \<and> sessionEntries (handleEntries [shift 0.1 0] (onCLS None plain_env)) = [shift 0.1 0]
   \<and> startTime (shift 0.05 1000)
       - startTime (last (sessionEntries (handleEntries [shift 0.1 0] (onCLS None plain_env)))) = 1000
   \<and> sessionValue (handleEntry (shift 0.05 1000) (handleEntries [shift 0.1 0] (onCLS None plain_env)))
       = 0.05
   \<and> sessionEntries (handleEntry (shift 0.05 1000) (handleEntries [shift 0.1 0] (onCLS None plain_env)))
       = [shift 0.05 1000]
   \<and> sessionValue (handleEntry (shift 0.05 1000) (handleEntries [shift 0.1 0] (onCLS None plain_env)))
       \<noteq> sessionValue (handleEntries [shift 0.1 0] (onCLS None plain_env)) + shift_value (shift 0.05 1000)"
  by (simp add: handleEntry_def onCLS_def shift_def lastSessionEntry_def firstSessionEntry_def
      entry_startTime_or_0_def)

text \<open>
  After one sample at time 0: at 999 ms a sample joins the session, at 1000 ms it
  replaces it. After six samples from 0 to 4500 ms, 900 ms apart: a sample at 4999 ms
  joins the session; one at 5000 ms, 500 ms after the last sample, replaces it.
\<close>

theorem handleEntry_session_rule_witness:
  "sessionValue (handleEntry (shift 0.05 999) (handleEntries [shift 0.1 0] (onCLS None plain_env)))
       = 0.15
   \<and> sessionEntries (handleEntry (shift 0.05 999) (handleEntries [shift 0.1 0] (onCLS None plain_env)))
       = [shift 0.1 0, shift 0.05 999]
   \<and> sessionValue (handleEntry (shift 0.05 1000) (handleEntries [shift 0.1 0] (onCLS None plain_env)))
       = 0.05
   \<and> sessionEntries (handleEntry (shift 0.05 1000) (handleEntries [shift 0.1 0] (onCLS None plain_env)))
       = [shift 0.05 1000]
   \<and> sessionValue (handleEntries six_shifts (onCLS None plain_env)) = 0.6
   \<and> sessionValue (handleEntry (shift 0.05 4999) (handleEntries six_shifts (onCLS None plain_env)))
       = 0.65
   \<and> sessionValue (handleEntry (shift 0.05 5000) (handleEntries six_shifts (onCLS None plain_env)))
       = 0.05
   \<and> sessionEntries (handleEntry (shift 0.05 5000) (handleEntries six_shifts (onCLS None plain_env)))
       = [shift 0.05 5000]"
proof -
  let ?s = "handleEntries [shift 0.1 0] (onCLS None plain_env)"
  let ?t = "handleEntries six_shifts (onCLS None plain_env)"
  have e: "\<not> hadRecentInput (shift 0.05 999)" "\<not> hadRecentInput (shift 0.05 1000)"
    "\<not> hadRecentInput (shift 0.05 4999)" "\<not> hadRecentInput (shift 0.05 5000)"
    by (simp_all add: shift_def)
  have s: "sessionEntries ?s = [shift 0.1 0]" "sessionValue ?s = 0.1"
    by (simp_all add: handleEntry_def onCLS_def shift_def)
  have t: "sessionEntries ?t = six_shifts" "sessionValue ?t = 0.6"
    by (simp_all add: six_shifts_def handleEntry_def onCLS_def shift_def lastSessionEntry_def
        firstSessionEntry_def entry_startTime_or_0_def)
  have ne: "sessionEntries ?s \<noteq> []" "sessionEntries ?t \<noteq> []"
    using s t by (simp_all add: six_shifts_def)
  have times: "startTime (hd (sessionEntries ?s)) = 0" "startTime (last (sessionEntries ?s)) = 0"
    "startTime (hd (sessionEntries ?t)) = 0" "startTime (last (sessionEntries ?t)) = 4500"
    "startTime (shift 0.05 999) = 999" "startTime (shift 0.05 1000) = 1000"
    "startTime (shift 0.05 4999) = 4999" "startTime (shift 0.05 5000) = 5000"
    "shift_value (shift 0.05 999) = 0.05" "shift_value (shift 0.05 1000) = 0.05"
    "shift_value (shift 0.05 4999) = 0.05" "shift_value (shift 0.05 5000) = 0.05"
    using s t by (simp_all add: six_shifts_def shift_def)
  from handleEntry_session_rule [OF e(1) ne(1)] handleEntry_session_rule [OF e(2) ne(1)]
    handleEntry_session_rule [OF e(3) ne(2)] handleEntry_session_rule [OF e(4) ne(2)]
    s t times
  show ?thesis by (simp add: six_shifts_def)
qed

text \<open>
  C5. The record's value never decreases and is the larger of its old value and the
  session value at the end of the call (\<open>handleEntries_metric_value\<close>). The comparison
  runs once per call, after all samples of the batch: a batch that closes a session of
  value 0.5 and ends in a session of value 0.1 leaves the record at 0.1, below the
  largest session value seen; the same samples in two batches give 0.5.
\<close>

theorem handleEntries_batch_loses_session:
  "sessionValue (handleEntry (shift 0.5 0) (onCLS None plain_env)) = 0.5
   \<and> metric_value (cls_metric (handleEntries [shift 0.5 0, shift 0.1 2000] (onCLS None plain_env))) = 0.1
   \<and> metric_value (cls_metric (handleEntries [shift 0.1 2000]
        (handleEntries [shift 0.5 0] (onCLS None plain_env)))) = 0.5"
  by (simp add: handleEntries_metric_value handleEntry_def onCLS_fresh lastSessionEntry_def
      firstSessionEntry_def entry_startTime_or_0_def shift_def)

section \<open>The interaction aggregator\<close>

lemma update_existing_frame [simp]:
  "longestInteractionList (update_existing e r s) = longestInteractionList s"
  "longestInteractionMap (update_existing e r s) = longestInteractionMap s"
  "allocated (update_existing e r s) = allocated s"
  "interaction_id (objects (update_existing e r s) r') = interaction_id (objects s r')"
  by (simp_all add: update_existing_def Let_def)

lemma sort_by_latency_frame [simp]:
  "objects (sort_by_latency s) = objects s"
  "longestInteractionMap (sort_by_latency s) = longestInteractionMap s"
  "allocated (sort_by_latency s) = allocated s"
  "set (longestInteractionList (sort_by_latency s)) = set (longestInteractionList s)"
  "distinct (longestInteractionList (sort_by_latency s)) = distinct (longestInteractionList s)"
  "length (longestInteractionList (sort_by_latency s)) = length (longestInteractionList s)"
  by (simp_all add: sort_by_latency_def)

lemma in_sync_update_existing: "in_sync s \<Longrightarrow> in_sync (update_existing e r s)"
  by (simp add: in_sync_def)

lemma in_sync_sort: "in_sync s \<Longrightarrow> in_sync (sort_by_latency s)"
  by (simp add: in_sync_def)

lemma add_interaction_fields:
  "longestInteractionList (add_interaction e s) = longestInteractionList s @ [allocated s]"
  "longestInteractionMap (add_interaction e s)
     = (longestInteractionMap s)(interactionId e \<mapsto> allocated s)"
  "allocated (add_interaction e s) = Suc (allocated s)"
  "interaction_id (objects (add_interaction e s) r)
     = (if r = allocated s then interactionId e else interaction_id (objects s r))"
  by (simp_all add: add_interaction_def Let_def)

lemma in_sync_add:
  assumes "in_sync s" and "longestInteractionMap s (interactionId e) = None"
  shows "in_sync (add_interaction e s)"
proof -
  let ?xs = "longestInteractionList s"
  let ?a = "allocated s"
  have d: "distinct ?xs"
    using assms(1) unfolding in_sync_def by blast
  have m: "r < ?a" if "r \<in> set ?xs" for r
    using assms(1) that unfolding in_sync_def by blast
  have m2: "longestInteractionMap s (interaction_id (objects s r)) = Some r" if "r \<in> set ?xs" for r
    using assms(1) that unfolding in_sync_def by blast
  have m': "r \<in> set ?xs \<and> interaction_id (objects s r) = k"
    if "longestInteractionMap s k = Some r" for k r
    using assms(1) that unfolding in_sync_def by blast
  have fresh: "?a \<notin> set ?xs" using m by blast
  show ?thesis
    unfolding in_sync_def add_interaction_fields
  proof (intro conjI ballI allI impI)
    show "distinct (?xs @ [?a])" using d fresh by simp
  next
    fix r assume r: "r \<in> set (?xs @ [?a])"
    show "r < Suc ?a"
    proof (cases "r = ?a")
      case True then show ?thesis by simp
    next
      case False with r m [of r] show ?thesis by simp
    qed
    show "((longestInteractionMap s)(interactionId e \<mapsto> ?a))
            (if r = ?a then interactionId e else interaction_id (objects s r)) = Some r"
    proof (cases "r = ?a")
      case True then show ?thesis by simp
    next
      case False
      with r have rx: "r \<in> set ?xs" by simp
      from m2 [OF rx] assms(2) have "interaction_id (objects s r) \<noteq> interactionId e" by auto
      with False m2 [OF rx] show ?thesis by simp
    qed
  next
    fix k r assume kr: "((longestInteractionMap s)(interactionId e \<mapsto> ?a)) k = Some r"
    show "r \<in> set (?xs @ [?a])"
    proof (cases "k = interactionId e")
      case True with kr show ?thesis by simp
    next
      case False with kr m' [of k r] show ?thesis by simp
    qed
    show "(if r = ?a then interactionId e else interaction_id (objects s r)) = k"
    proof (cases "k = interactionId e")
      case True with kr show ?thesis by simp
    next
      case False
      with kr have "longestInteractionMap s k = Some r" by simp
      from m' [OF this] fresh show ?thesis by auto
    qed
  qed
qed

lemma fold_delete:
  "fold (\<lambda>r m. m(f r := None)) rs m k = (if k \<in> f ` set rs then None else m k)"
  by (induction rs arbitrary: m) auto

lemma splice_longest_fields:
  assumes "length (longestInteractionList s) > MAX_INTERACTIONS_TO_CONSIDER"
  shows "longestInteractionList (splice_longest s)
           = take MAX_INTERACTIONS_TO_CONSIDER (longestInteractionList s)"
    and "longestInteractionMap (splice_longest s) k
           = (if k \<in> (\<lambda>r. interaction_id (objects s r))
                     ` set (drop MAX_INTERACTIONS_TO_CONSIDER (longestInteractionList s))
              then None else longestInteractionMap s k)"
    and "objects (splice_longest s) = objects s"
    and "allocated (splice_longest s) = allocated s"
  using assms by (simp_all add: splice_longest_def fold_delete)

lemma splice_longest_id:
  "\<not> length (longestInteractionList s) > MAX_INTERACTIONS_TO_CONSIDER \<Longrightarrow> splice_longest s = s"
  by (simp add: splice_longest_def)

lemma in_sync_splice:
  assumes "in_sync s"
  shows "in_sync (splice_longest s)"
proof (cases "length (longestInteractionList s) > MAX_INTERACTIONS_TO_CONSIDER")
  case False
  show ?thesis unfolding splice_longest_id [OF False] by (rule assms)
next
  case True
  note f = splice_longest_fields [OF True]
  let ?n = MAX_INTERACTIONS_TO_CONSIDER
  let ?xs = "longestInteractionList s"
  let ?id = "\<lambda>r. interaction_id (objects s r)"
  have d: "distinct ?xs"
    using assms unfolding in_sync_def by blast
  have m: "r < allocated s" if "r \<in> set ?xs" for r
    using assms that unfolding in_sync_def by blast
  have m2: "longestInteractionMap s (?id r) = Some r" if "r \<in> set ?xs" for r
    using assms that unfolding in_sync_def by blast
  have m': "r \<in> set ?xs \<and> ?id r = k" if "longestInteractionMap s k = Some r" for k r
    using assms that unfolding in_sync_def by blast
  have disj: "set (take ?n ?xs) \<inter> set (drop ?n ?xs) = {}"
    using d by (rule set_take_disj_set_drop_if_distinct) simp
  have sub: "set (take ?n ?xs) \<subseteq> set ?xs" "set (drop ?n ?xs) \<subseteq> set ?xs"
    by (rule set_take_subset, rule set_drop_subset)
  have "set (take ?n ?xs @ drop ?n ?xs) = set (take ?n ?xs) \<union> set (drop ?n ?xs)"
    by (rule set_append)
  then have un: "set ?xs = set (take ?n ?xs) \<union> set (drop ?n ?xs)"
    by (simp only: append_take_drop_id)
  have inj: "a = b" if "a \<in> set ?xs" "b \<in> set ?xs" "?id a = ?id b" for a b
  proof -
    have "Some a = longestInteractionMap s (?id a)" using m2 [OF that(1)] by simp
    also have "\<dots> = longestInteractionMap s (?id b)" by (simp only: that(3))
    also have "\<dots> = Some b" by (rule m2 [OF that(2)])
    finally show ?thesis by simp
  qed
  show ?thesis
    unfolding in_sync_def f
  proof (intro conjI ballI allI impI)
    show "distinct (take ?n ?xs)" using d by (rule distinct_take)
  next
    fix r assume r: "r \<in> set (take ?n ?xs)"
    then have rx: "r \<in> set ?xs" using sub by blast
    show "r < allocated s" using m [OF rx] .
    have notin: "?id r \<notin> ?id ` set (drop ?n ?xs)"
    proof
      assume "?id r \<in> ?id ` set (drop ?n ?xs)"
      then obtain r' where r': "r' \<in> set (drop ?n ?xs)" "?id r = ?id r'" by blast
      from r'(1) sub have "r' \<in> set ?xs" by blast
      from inj [OF rx this r'(2)] have "r = r'" .
      with r r'(1) disj show False by blast
    qed
    show "(if ?id r \<in> ?id ` set (drop ?n ?xs) then None
           else longestInteractionMap s (?id r)) = Some r"
      using notin m2 [OF rx] by simp
  next
    fix k r
    assume kr: "(if k \<in> ?id ` set (drop ?n ?xs) then None else longestInteractionMap s k) = Some r"
    then have k: "k \<notin> ?id ` set (drop ?n ?xs)"
      by (cases "k \<in> ?id ` set (drop ?n ?xs)") simp_all
    with kr have mk: "longestInteractionMap s k = Some r" by simp
    from m' [OF mk] have rx: "r \<in> set ?xs" and id: "?id r = k" by blast+
    from k id have "r \<notin> set (drop ?n ?xs)" by blast
    with rx un show "r \<in> set (take ?n ?xs)" by blast
    show "?id r = k" by (rule id)
  qed
qed

lemma processInteractionEntry_shape:
  "processInteractionEntry e s = s
   \<or> processInteractionEntry e s = splice_longest (sort_by_latency
       (case longestInteractionMap s (interactionId (preprocessed e s)) of
          None \<Rightarrow> add_interaction (preprocessed e s) s
        | Some r \<Rightarrow> update_existing (preprocessed e s) r s))"
proof (cases "is_candidate (preprocessed e s)
    \<and> (longestInteractionMap s (interactionId (preprocessed e s)) \<noteq> None
       \<or> length (longestInteractionList s) < MAX_INTERACTIONS_TO_CONSIDER
       \<or> duration (preprocessed e s)
           > (case array_get (longestInteractionList s) (int (length (longestInteractionList s)) - 1) of
                None \<Rightarrow> 0 | Some r \<Rightarrow> latency (objects s r)))")
  case True
  then have "processInteractionEntry e s = splice_longest (sort_by_latency
       (case longestInteractionMap s (interactionId (preprocessed e s)) of
          None \<Rightarrow> add_interaction (preprocessed e s) s
        | Some r \<Rightarrow> update_existing (preprocessed e s) r s))"
    by (simp add: processInteractionEntry_def Let_def)
  then show ?thesis by (rule disjI2)
next
  case False
  then have "processInteractionEntry e s = s"
    by (auto simp add: processInteractionEntry_def Let_def)
  then show ?thesis by (rule disjI1)
qed

lemma in_sync_process:
  assumes "in_sync s"
  shows "in_sync (processInteractionEntry e s)"
proof -
  let ?entry = "preprocessed e s"
  from processInteractionEntry_shape [of e s]
  consider (skip) "processInteractionEntry e s = s"
    | (admit) "processInteractionEntry e s = splice_longest (sort_by_latency
       (case longestInteractionMap s (interactionId ?entry) of
          None \<Rightarrow> add_interaction ?entry s
        | Some r \<Rightarrow> update_existing ?entry r s))"
    by blast
  then show ?thesis
  proof cases
    case skip
    show ?thesis unfolding skip by (rule assms)
  next
    case admit
    have "in_sync (case longestInteractionMap s (interactionId ?entry) of
          None \<Rightarrow> add_interaction ?entry s
        | Some r \<Rightarrow> update_existing ?entry r s)"
    proof (cases "longestInteractionMap s (interactionId ?entry)")
      case None
      from in_sync_add [OF assms None] None show ?thesis by simp
    next
      case (Some r)
      from in_sync_update_existing [OF assms, of ?entry r] Some show ?thesis by simp
    qed
    then have "in_sync (splice_longest (sort_by_latency
       (case longestInteractionMap s (interactionId ?entry) of
          None \<Rightarrow> add_interaction ?entry s
        | Some r \<Rightarrow> update_existing ?entry r s)))"
      by (intro in_sync_splice in_sync_sort)
    then show ?thesis unfolding admit .
  qed
qed

lemma in_sync_reset: "in_sync (resetInteractions c s)"
  by (simp add: in_sync_def resetInteractions_def)

lemma in_sync_init: "in_sync (interactions_init cbs)"
  by (simp add: in_sync_def interactions_init_def)

lemma in_sync_step: "in_sync s \<Longrightarrow> in_sync (interactions_step op s)"
  by (cases op) (simp_all add: in_sync_process in_sync_reset)

lemma in_sync_fold: "in_sync s \<Longrightarrow> in_sync (fold interactions_step ops s)"
  by (induction ops arbitrary: s) (simp_all add: in_sync_step)

lemma in_sync_table:
  assumes "in_sync s"
  shows "distinct (map fst (list_table s))"
    and "longestInteractionMap s = map_of (list_table s)"
    and "ran (longestInteractionMap s) = set (longestInteractionList s)"
proof -
  let ?xs = "longestInteractionList s"
  let ?f = "\<lambda>r. interaction_id (objects s r)"
  have m: "\<forall>r \<in> set ?xs. longestInteractionMap s (?f r) = Some r"
    and m': "\<forall>k r. longestInteractionMap s k = Some r \<longrightarrow> r \<in> set ?xs \<and> ?f r = k"
    and d: "distinct ?xs"
    using assms by (simp_all add: in_sync_def)
  have "inj_on ?f (set ?xs)"
    using m by (intro inj_onI) (metis option.inject)
  with d have "distinct (map ?f ?xs)" by (simp add: distinct_map)
  then show dk: "distinct (map fst (list_table s))"
    by (simp add: list_table_def comp_def)
  show "longestInteractionMap s = map_of (list_table s)"
  proof (rule ext)
    fix k
    show "longestInteractionMap s k = map_of (list_table s) k"
    proof (cases "longestInteractionMap s k")
      case None
      have "map_of (list_table s) k = None"
      proof (rule ccontr)
        assume "map_of (list_table s) k \<noteq> None"
        then obtain r where "map_of (list_table s) k = Some r" by blast
        then have "(k, r) \<in> set (list_table s)" by (rule map_of_SomeD)
        then have "r \<in> set ?xs" "?f r = k" by (auto simp: list_table_def)
        with m None show False by auto
      qed
      with None show ?thesis by simp
    next
      case (Some r)
      with m' have "r \<in> set ?xs" "?f r = k" by blast+
      then have "(k, r) \<in> set (list_table s)" by (auto simp: list_table_def)
      with dk have "map_of (list_table s) k = Some r" by simp
      with Some show ?thesis by simp
    qed
  qed
  show "ran (longestInteractionMap s) = set ?xs"
    using m m' by (auto simp: ran_def)
qed

lemma sorted_sort_by_latency: "sorted_wrt (\<ge>) (latencies (sort_by_latency s))"
proof -
  have "sorted (map (\<lambda>r. - latency (objects s r)) (sort_key (\<lambda>r. - latency (objects s r)) (longestInteractionList s)))"
    by (rule sorted_sort_key)
  then show ?thesis
    by (simp add: latencies_def sort_by_latency_def sorted_wrt_map)
qed

lemma splice_bounded_sorted:
  assumes "sorted_wrt (\<ge>) (latencies s)"
  shows "bounded_sorted (splice_longest s)"
proof (cases "length (longestInteractionList s) > MAX_INTERACTIONS_TO_CONSIDER")
  case True
  have "sorted_wrt (\<ge>) (take MAX_INTERACTIONS_TO_CONSIDER (latencies s))"
    using assms by (rule sorted_wrt_take)
  with True show ?thesis
    by (simp add: bounded_sorted_def splice_longest_def latencies_def take_map)
next
  case False
  with assms show ?thesis by (simp add: bounded_sorted_def splice_longest_def)
qed

lemma bounded_sorted_process:
  assumes "bounded_sorted s"
  shows "bounded_sorted (processInteractionEntry e s)"
proof -
  from processInteractionEntry_shape [of e s]
  consider (skip) "processInteractionEntry e s = s"
    | (admit) t where "processInteractionEntry e s = splice_longest (sort_by_latency t)"
    by blast
  then show ?thesis
  proof cases
    case skip
    show ?thesis unfolding skip by (rule assms)
  next
    case admit
    have "bounded_sorted (splice_longest (sort_by_latency t))"
      by (intro splice_bounded_sorted sorted_sort_by_latency)
    then show ?thesis unfolding admit .
  qed
qed

lemma bounded_sorted_reset: "bounded_sorted (resetInteractions c s)"
  by (simp add: bounded_sorted_def resetInteractions_def latencies_def)

lemma bounded_sorted_init: "bounded_sorted (interactions_init cbs)"
  by (simp add: bounded_sorted_def interactions_init_def latencies_def)

lemma bounded_sorted_fold: "bounded_sorted s \<Longrightarrow> bounded_sorted (fold interactions_step ops s)"
proof (induction ops arbitrary: s)
  case Nil
  then show ?case by simp
next
  case (Cons op ops)
  then show ?case by (cases op) (simp_all add: bounded_sorted_process bounded_sorted_reset)
qed

text \<open>
  C6. After any sequence of \<^verbatim>\<open>processInteractionEntry\<close> and \<^verbatim>\<open>resetInteractions\<close> calls on the
  freshly loaded module, whatever the registered hooks, the retained list has at most 10
  members and their latencies are in descending order.
\<close>

theorem longestInteractionList_bounded_sorted:
  "length (longestInteractionList (fold interactions_step ops (interactions_init cbs))) \<le> 10
   \<and> sorted_wrt (\<ge>) (latencies (fold interactions_step ops (interactions_init cbs)))"
  using bounded_sorted_fold [OF bounded_sorted_init, of ops cbs]
  by (simp add: bounded_sorted_def MAX_INTERACTIONS_TO_CONSIDER_def)

text \<open>
  Twelve interactions of growing latency, then a longer entry for the fifth: ten are
  retained, the updated one first.
\<close>

theorem longestInteractionList_bounded_sorted_witness:
  "length (longestInteractionList (fold interactions_step sample_ops (interactions_init []))) \<le> 10
   \<and> sorted_wrt (\<ge>) (latencies (fold interactions_step sample_ops (interactions_init [])))
   \<and> latencies (fold interactions_step sample_ops (interactions_init []))
       = [200, 128, 120, 112, 104, 96, 88, 80, 64, 56]"
proof -
  have "latencies (fold interactions_step sample_ops (interactions_init []))
       = [200, 128, 120, 112, 104, 96, 88, 80, 64, 56]"
    by code_simp
  with longestInteractionList_bounded_sorted [of sample_ops "[]"] show ?thesis by simp
qed

text \<open>
  C10. After any such sequence the list holds no reference twice, no two objects of the
  list have the same id, the map is exactly the table that sends the id of each object of
  the list to the reference of that object, and the references the map holds are those
  of the list: an interaction that left the list (spliced off past 10, or by a reset) has
  no map entry.
\<close>

theorem longestInteractionMap_in_sync:
  "distinct (longestInteractionList (fold interactions_step ops (interactions_init cbs)))
   \<and> distinct (map fst (list_table (fold interactions_step ops (interactions_init cbs))))
   \<and> longestInteractionMap (fold interactions_step ops (interactions_init cbs))
       = map_of (list_table (fold interactions_step ops (interactions_init cbs)))
   \<and> ran (longestInteractionMap (fold interactions_step ops (interactions_init cbs)))
       = set (longestInteractionList (fold interactions_step ops (interactions_init cbs)))"
proof -
  have s: "in_sync (fold interactions_step ops (interactions_init cbs))"
    by (rule in_sync_fold [OF in_sync_init])
  from in_sync_table [OF s] s show ?thesis by (simp add: in_sync_def)
qed

text \<open>
  In the run above the two interactions of shortest latency were spliced off: ids 1 and
  2 are not keys of the map any more. After a reset the map is empty.
\<close>

theorem longestInteractionMap_in_sync_witness:
  "longestInteractionList (fold interactions_step sample_ops (interactions_init []))
     = [4, 11, 10, 9, 8, 7, 6, 5, 3, 2]
   \<and> longestInteractionMap (fold interactions_step sample_ops (interactions_init []))
     = map_of [(Some 5, 4), (Some 12, 11), (Some 11, 10), (Some 10, 9), (Some 9, 8), (Some 8, 7),
               (Some 7, 6), (Some 6, 5), (Some 4, 3), (Some 3, 2)]
   \<and> longestInteractionMap (fold interactions_step (sample_ops @ [Reset 13]) (interactions_init []))
     = Map.empty"
proof -
  have a: "list_table (fold interactions_step sample_ops (interactions_init []))
     = [(Some 5, 4), (Some 12, 11), (Some 11, 10), (Some 10, 9), (Some 9, 8), (Some 8, 7),
        (Some 7, 6), (Some 6, 5), (Some 4, 3), (Some 3, 2)]"
    by code_simp
  have b: "longestInteractionList (fold interactions_step sample_ops (interactions_init []))
     = [4, 11, 10, 9, 8, 7, 6, 5, 3, 2]"
    by code_simp
  have c: "list_table (fold interactions_step (sample_ops @ [Reset 13]) (interactions_init [])) = []"
    by (simp add: list_table_def resetInteractions_def)
  from longestInteractionMap_in_sync [of sample_ops "[]"]
    longestInteractionMap_in_sync [of "sample_ops @ [Reset 13]" "[]"] a b c
  show ?thesis by simp
qed

text \<open>
  C7. When the interaction count is not below the baseline of the epoch (the count is a
  counter that only grows and the baseline is an earlier reading of it, or 0):
  with no retained interaction the function returns nothing (the index is then \<open>-1\<close>,
  whose read is \<^verbatim>\<open>undefined\<close>); with at least one, the index
  \<open>min (length - 1) \<lfloor>count since the baseline / 50\<rfloor>\<close> lies in \<open>0 .. length - 1\<close>, also for a
  count of 0, and the function returns the member of the list at that index.
\<close>

theorem estimateP98LongestInteraction_in_range:
  assumes "prevInteractionCount s \<le> interactionCount"
  shows "(longestInteractionList s = []
            \<longrightarrow> estimateP98LongestInteraction interactionCount s = None)
       \<and> (longestInteractionList s \<noteq> []
            \<longrightarrow> 0 \<le> candidateInteractionIndex interactionCount s
              \<and> candidateInteractionIndex interactionCount s \<le> int (length (longestInteractionList s)) - 1
              \<and> candidateInteractionIndex interactionCount s
                  = min (int (length (longestInteractionList s)) - 1)
                        \<lfloor>(interactionCount - prevInteractionCount s) / 50\<rfloor>
              \<and> estimateP98LongestInteraction interactionCount s
                  = Some (longestInteractionList s ! nat (candidateInteractionIndex interactionCount s)))"
proof -
  have "0 \<le> (interactionCount - prevInteractionCount s) / 50" using assms by simp
  then have f: "0 \<le> \<lfloor>(interactionCount - prevInteractionCount s) / 50\<rfloor>" by simp
  show ?thesis
    using f
    by (auto simp: estimateP98LongestInteraction_def candidateInteractionIndex_def array_get_def
        getInteractionCountForNavigation_def min_def)
qed

text \<open>
  Nothing on the empty list; with three retained interactions, counts of 0, 60 and 5000
  since the baseline select the indices 0, 1 and 2.
\<close>

theorem estimateP98LongestInteraction_in_range_witness:
  "estimateP98LongestInteraction 0 (interactions_init []) = None
   \<and> longestInteractionList (fold interactions_step few_ops (interactions_init [])) = [1, 2, 0]
   \<and> estimateP98LongestInteraction 0 (fold interactions_step few_ops (interactions_init [])) = Some 1
   \<and> estimateP98LongestInteraction 60 (fold interactions_step few_ops (interactions_init [])) = Some 2
   \<and> estimateP98LongestInteraction 5000 (fold interactions_step few_ops (interactions_init [])) = Some 0"
proof -
  let ?s = "fold interactions_step few_ops (interactions_init [])"
  have l: "longestInteractionList ?s = [1, 2, 0]" by code_simp
  have p: "prevInteractionCount ?s = 0" by code_simp
  have p0: "prevInteractionCount (interactions_init []) \<le> 0" "longestInteractionList (interactions_init []) = []"
    by (simp_all add: interactions_init_def)
  have i: "candidateInteractionIndex 0 ?s = 0" "candidateInteractionIndex 60 ?s = 1"
    "candidateInteractionIndex 5000 ?s = 2"
    by (simp_all add: candidateInteractionIndex_def getInteractionCountForNavigation_def l p)
  from estimateP98LongestInteraction_in_range [of "interactions_init []" 0]
    estimateP98LongestInteraction_in_range [of ?s 0]
    estimateP98LongestInteraction_in_range [of ?s 60]
    estimateP98LongestInteraction_in_range [of ?s 5000]
    l p p0 i
  show ?thesis by simp
qed

end
